theory Spec2Isabelle
  imports Main "HOL-Library.Sublist" "HOL-Library.Char_ord"
begin

section \<open>The page as the script sees it\<close>

text \<open>
  The script \<^verbatim>\<open>about me/optimize.js\<close> is one immediately invoked function. It has no
  data of its own beyond two closure variables (\<^verbatim>\<open>ticking\<close>, \<^verbatim>\<open>largeImages\<close>); everything
  else it reads and writes is the document. The model is a record of the parts of the
  document and of the browser the script touches, and every function of the script is a
  function from page to page. An element is identified by its position in the document
  (the order \<^verbatim>\<open>querySelectorAll\<close> returns).
\<close>

subsection \<open>Elements\<close>

text \<open>
  The closures the script passes to \<^verbatim>\<open>addEventListener\<close> on an image, by source line:
  line 68 (\<open>FadeIn\<close>), line 73 (\<open>WarnFailed\<close>), line 150 (\<open>CheckSize\<close>).
\<close>

datatype img_event = LoadEv | ErrorEv

datatype img_handler = FadeIn | WarnFailed | CheckSize

record img =
  src_attr :: "string option"
  data_src :: "string option"
  loading :: "string option"
  complete :: bool
  classList :: "string list"
  width :: nat
  height :: nat
  naturalWidth :: nat
  naturalHeight :: nat
  img_listeners :: "(img_event \<times> img_handler) list"

text \<open>
  An anchor. Its only listener in this script is the prefetch closure of line 131,
  registered with \<^verbatim>\<open>{ once: true }\<close>; the flag is kept with the listener.
\<close>

datatype a_handler = Prefetch

record anchor =
  href_attr :: "string option"
  a_listeners :: "(a_handler \<times> bool) list"

datatype head_child = PrefetchLink string | StyleSheet

record large_image =
  li_src :: string
  li_natural :: nat
  li_display :: nat

datatype console_call =
    Warn string string
  | Log string
  | LogLarge large_image
  | Group string
  | GroupEnd

record aos_config =
  duration :: nat
  once :: bool
  disable :: bool
  offset :: nat
  easing :: string

text \<open>
  \<^verbatim>\<open>navigator.connection\<close>. Line 102 asks whether the property exists
  (\<^verbatim>\<open>'connection' in navigator\<close>), line 41 whether its value is truthy, so the model keeps
  the two apart: the property is missing, or it is there without a value, or it is the
  connection object, of which the script reads \<^verbatim>\<open>effectiveType\<close> only.
\<close>

datatype nav_connection = NoConnection | ConnectionUndefined | Connection string

datatype error = TypeError

datatype doc_handler =
    ObserveLazyImages
  | SetupAOS
  | RunInit
  | TouchNoop
  | ScrollThrottle
  | ReportLargeImages

datatype doc_event = DOMContentLoadedEv | TouchStartEv | ScrollEv | WindowLoadEv

subsection \<open>The environment, fixed for the life of the page\<close>

record env =
  hasIntersectionObserver :: bool
  hasAOS :: bool
  hasTouch :: bool
  userAgent :: string
  hostname :: string
  resolve :: "string \<Rightarrow> string"

subsection \<open>The mutable page\<close>

text \<open>
  \<open>observed\<close> is the target list of \<^verbatim>\<open>imageObserver\<close> (\<open>None\<close> when the observer was
  never constructed). \<open>src_assignments\<close> records every execution of line 18,
  \<^verbatim>\<open>img.src = img.dataset.src\<close>, with the image and the value assigned, in order.
  \<open>uncaught\<close> collects the exceptions that escape a listener or the script.
  \<open>readyStateLoading\<close> is \<^verbatim>\<open>document.readyState === 'loading'\<close>, what line 190 reads.
  It is not the same as \<^verbatim>\<open>DOMContentLoaded\<close> still being ahead: a deferred script runs
  when the state is already \<^verbatim>\<open>interactive\<close> and the event has not been dispatched yet.
  So \<open>domContentLoaded_dispatched\<close> and \<open>load_dispatched\<close> keep, apart from the ready
  state, whether the browser has dispatched the two events that come once.
\<close>

record page =
  images :: "img list"
  links :: "anchor list"
  body_classes :: "string list"
  head_children :: "head_child list"
  console :: "console_call list"
  connection :: nav_connection
  change_listeners :: nat
  observed :: "nat list option"
  listeners :: "(doc_event \<times> doc_handler) list"
  readyStateLoading :: bool
  domContentLoaded_dispatched :: bool
  load_dispatched :: bool
  ticking :: bool
  frame_requests :: nat
  largeImages :: "large_image list"
  aos_inits :: "aos_config list"
  src_assignments :: "(nat \<times> string) list"
  uncaught :: "error list"

subsection \<open>DOM primitives\<close>

text \<open>\<^verbatim>\<open>classList.add\<close> and \<^verbatim>\<open>classList.remove\<close> on an ordered set of tokens.\<close>

definition classList_add :: "string \<Rightarrow> string list \<Rightarrow> string list" where
  "classList_add c cs = (if c \<in> set cs then cs else cs @ [c])"

definition classList_remove :: "string \<Rightarrow> string list \<Rightarrow> string list" where
  "classList_remove c cs = filter (\<lambda>x. x \<noteq> c) cs"

text \<open>
  The reflected URL properties \<^verbatim>\<open>img.src\<close> and \<^verbatim>\<open>a.href\<close>: empty without the attribute,
  else the attribute resolved against the document.
\<close>

definition url_prop :: "env \<Rightarrow> string option \<Rightarrow> string" where
  "url_prop E a = (case a of None \<Rightarrow> [] | Some s \<Rightarrow> resolve E s)"

definition update_link :: "nat \<Rightarrow> (anchor \<Rightarrow> anchor) \<Rightarrow> page \<Rightarrow> page" where
  "update_link i f p =
     (if i < length (links p) then p\<lparr>links := (links p)[i := f (links p ! i)]\<rparr> else p)"

definition update_img :: "nat \<Rightarrow> (img \<Rightarrow> img) \<Rightarrow> page \<Rightarrow> page" where
  "update_img i f p =
     (if i < length (images p) then p\<lparr>images := (images p)[i := f (images p ! i)]\<rparr> else p)"

text \<open>The attribute selectors \<^verbatim>\<open>[a="v"]\<close> and \<^verbatim>\<open>[a*="v"]\<close>.\<close>

definition attr_is :: "string \<Rightarrow> string option \<Rightarrow> bool" where
  "attr_is v a = (a = Some v)"

definition attr_contains :: "string \<Rightarrow> string option \<Rightarrow> bool" where
  "attr_contains v a = (case a of None \<Rightarrow> False | Some s \<Rightarrow> v \<noteq> [] \<and> sublist v s)"

text \<open>\<^verbatim>\<open>querySelectorAll\<close> over the images or anchors: the positions that match.\<close>

definition select_indices :: "('a \<Rightarrow> bool) \<Rightarrow> 'a list \<Rightarrow> nat list" where
  "select_indices P xs = filter (\<lambda>i. P (xs ! i)) [0..<length xs]"

section \<open>Lazy loading through the intersection observer (lines 10-34)\<close>

record entry =
  target :: nat
  isIntersecting :: bool

text \<open>\<^verbatim>\<open>observer.observe\<close> and \<^verbatim>\<open>observer.unobserve\<close> on the target list.\<close>

definition observe :: "nat \<Rightarrow> page \<Rightarrow> page" where
  "observe i p =
     (case observed p of
        None \<Rightarrow> p
      | Some ts \<Rightarrow> if i \<in> set ts then p else p\<lparr>observed := Some (ts @ [i])\<rparr>)"

definition unobserve :: "nat \<Rightarrow> page \<Rightarrow> page" where
  "unobserve i p =
     (case observed p of
        None \<Rightarrow> p
      | Some ts \<Rightarrow> p\<lparr>observed := Some (filter (\<lambda>t. t \<noteq> i) ts)\<rparr>)"

text \<open>
  Lines 17-20: the guarded assignment and the removal of the attribute.
  \<^verbatim>\<open>img.dataset.src\<close> is undefined without the attribute and the attribute's value
  otherwise; the guard is its truthiness, which an empty value fails too.
\<close>

definition promote :: "nat \<Rightarrow> page \<Rightarrow> page" where
  "promote i p =
     (if i < length (images p)
      then (case data_src (images p ! i) of
              None \<Rightarrow> p
            | Some u \<Rightarrow>
                if u = [] then p
                else (update_img i (\<lambda>g. g\<lparr>src_attr := Some u, data_src := None\<rparr>) p)
                       \<lparr>src_assignments := src_assignments p @ [(i, u)]\<rparr>)
      else p)"

text \<open>Lines 14-22: the body of \<^verbatim>\<open>entries.forEach\<close>.\<close>

definition on_entry :: "entry \<Rightarrow> page \<Rightarrow> page" where
  "on_entry e p =
     (if isIntersecting e then unobserve (target e) (promote (target e) p) else p)"

text \<open>Lines 12-24: the observer's callback.\<close>

definition imageObserver :: "entry list \<Rightarrow> page \<Rightarrow> page" where
  "imageObserver entries p = fold on_entry entries p"

text \<open>Lines 30-33: the first \<^verbatim>\<open>DOMContentLoaded\<close> listener.\<close>

definition observe_lazy_images :: "page \<Rightarrow> page" where
  "observe_lazy_images p =
     fold observe (select_indices (\<lambda>g. data_src g \<noteq> None) (images p)) p"

text \<open>
  The browser's side of the observer: it reports only targets that are observed when
  the batch is put together, and reports nothing without an observer.
\<close>

definition deliver_intersections :: "entry list \<Rightarrow> page \<Rightarrow> page" where
  "deliver_intersections entries p =
     (case observed p of
        None \<Rightarrow> p
      | Some ts \<Rightarrow> imageObserver (filter (\<lambda>e. target e \<in> set ts) entries) p)"

section \<open>Animate-on-scroll settings (lines 37-57)\<close>

text \<open>
  Line 40 tests the user agent against a case-insensitive regular expression that is an
  alternation of literal words: it holds when one of the words occurs anywhere, letter
  case aside (the \<^verbatim>\<open>i\<close> flag folds ASCII letters only onto ASCII letters).
\<close>

definition lower :: "char \<Rightarrow> char" where
  "lower c = (if CHR ''A'' \<le> c \<and> c \<le> CHR ''Z'' then char_of (of_char c + (32::nat)) else c)"

definition mobile_words :: "string list" where
  "mobile_words =
     [''Android'', ''webOS'', ''iPhone'', ''iPad'', ''iPod'', ''BlackBerry'', ''IEMobile'',
      ''Opera Mini'']"

definition isMobile :: "string \<Rightarrow> bool" where
  "isMobile ua = list_ex (\<lambda>w. sublist (map lower w) (map lower ua)) mobile_words"

text \<open>
  Lines 41-44. The JavaScript value is \<^verbatim>\<open>undefined\<close> without a connection and a boolean
  otherwise; lines 47 and 51 use its truthiness only, which is what the model returns.
\<close>

definition isSlowConnection :: "nav_connection \<Rightarrow> bool" where
  "isSlowConnection c =
     (case c of
        Connection t \<Rightarrow> t = ''slow-2g'' \<or> t = ''2g'' \<or> t = ''3g''
      | _ \<Rightarrow> False)"

text \<open>Lines 38-56; \<open>aos_inits\<close> records the calls of \<^verbatim>\<open>AOS.init\<close>.\<close>

definition setup_aos :: "env \<Rightarrow> page \<Rightarrow> page" where
  "setup_aos E p =
     (if hasAOS E
      then (if isMobile (userAgent E) \<or> isSlowConnection (connection p)
            then p\<lparr>aos_inits := aos_inits p @
                     [\<lparr>duration = 600, once = True,
                       disable = (if isSlowConnection (connection p) then True else False),
                       offset = 50, easing = ''ease-in-out''\<rparr>]\<rparr>
            else p)
      else p)"

section \<open>Progressive image loading (lines 60-79)\<close>

text \<open>Lines 65-77: the body of \<^verbatim>\<open>images.forEach\<close>, on one image.\<close>

definition track :: "img \<Rightarrow> img" where
  "track g =
     (if complete g
      then g\<lparr>classList := classList_add ''loaded'' (classList g)\<rparr>
      else g\<lparr>img_listeners := img_listeners g @ [(LoadEv, FadeIn), (ErrorEv, WarnFailed)]\<rparr>)"

definition progressiveImageLoad :: "page \<Rightarrow> page" where
  "progressiveImageLoad p =
     fold (\<lambda>i. update_img i track)
       (select_indices (\<lambda>g. attr_is ''lazy'' (loading g)) (images p)) p"

section \<open>Touch and scroll (lines 82-98)\<close>

definition optimizeTouchInteraction :: "env \<Rightarrow> page \<Rightarrow> page" where
  "optimizeTouchInteraction E p =
     (let p1 = (if hasTouch E
                then p\<lparr>listeners := listeners p @ [(TouchStartEv, TouchNoop)]\<rparr>
                else p)
      in p1\<lparr>ticking := False, listeners := listeners p1 @ [(ScrollEv, ScrollThrottle)]\<rparr>)"

text \<open>Lines 90-97, the scroll listener, and lines 92-94, the frame callback it requests.\<close>

definition on_scroll :: "page \<Rightarrow> page" where
  "on_scroll p =
     (if \<not> ticking p then p\<lparr>frame_requests := frame_requests p + 1, ticking := True\<rparr> else p)"

definition on_frame :: "page \<Rightarrow> page" where
  "on_frame p = p\<lparr>ticking := False\<rparr>"

section \<open>Network adaptation (lines 101-123)\<close>

definition low_bandwidth :: "page \<Rightarrow> bool" where
  "low_bandwidth p = (''low-bandwidth'' \<in> set (body_classes p))"

text \<open>
  Lines 106-116, the \<^verbatim>\<open>change\<close> listener. It reads \<^verbatim>\<open>effectiveType\<close> of the connection
  object it closed over; it is registered only when that object exists.
\<close>

definition on_change :: "page \<Rightarrow> page" where
  "on_change p =
     (case connection p of
        Connection effectiveType \<Rightarrow>
          if effectiveType = ''slow-2g'' \<or> effectiveType = ''2g''
          then p\<lparr>body_classes := classList_add ''low-bandwidth'' (body_classes p),
                 console := console p @ [Log ''Low bandwidth detected - optimizing content'']\<rparr>
          else p\<lparr>body_classes := classList_remove ''low-bandwidth'' (body_classes p)\<rparr>
      | _ \<Rightarrow> p)"

text \<open>
  Lines 102-122. With the property present but without a value, line 106 calls a method
  of \<^verbatim>\<open>undefined\<close>, which throws before anything is changed.
\<close>

definition adaptToNetworkCondition :: "page \<Rightarrow> error + page" where
  "adaptToNetworkCondition p =
     (case connection p of
        NoConnection \<Rightarrow> Inr p
      | ConnectionUndefined \<Rightarrow> Inl TypeError
      | Connection effectiveType \<Rightarrow>
          (let p1 = p\<lparr>change_listeners := change_listeners p + 1\<rparr>
           in if effectiveType = ''slow-2g'' \<or> effectiveType = ''2g''
              then Inr (p1\<lparr>body_classes := classList_add ''low-bandwidth'' (body_classes p1)\<rparr>)
              else Inr p1))"

text \<open>
  The browser's side: a change of the connection sets the new effective type and then
  calls every registered \<^verbatim>\<open>change\<close> listener. Without a connection object there is
  nothing that could change.
\<close>

definition connection_change :: "string \<Rightarrow> page \<Rightarrow> page" where
  "connection_change t p =
     (case connection p of
        Connection _ \<Rightarrow> (on_change ^^ change_listeners p) (p\<lparr>connection := Connection t\<rparr>)
      | _ \<Rightarrow> p)"

section \<open>Prefetch on hover (lines 126-140)\<close>

definition prefetchCriticalResources :: "page \<Rightarrow> page" where
  "prefetchCriticalResources p =
     fold (\<lambda>i. update_link i (\<lambda>a. a\<lparr>a_listeners := a_listeners a @ [(Prefetch, True)]\<rparr>))
       (select_indices (\<lambda>a. attr_contains ''.html'' (href_attr a)) (links p)) p"

text \<open>Lines 132-137, the listener, called with \<^verbatim>\<open>this\<close> the anchor at position \<open>i\<close>.\<close>

fun run_a_handler :: "env \<Rightarrow> nat \<Rightarrow> a_handler \<Rightarrow> page \<Rightarrow> page" where
  "run_a_handler E i Prefetch p =
     p\<lparr>head_children := head_children p @ [PrefetchLink (url_prop E (href_attr (links p ! i)))]\<rparr>"

text \<open>
  The browser's side of \<^verbatim>\<open>mouseenter\<close>: the listeners registered at that moment are
  called in order, and one registered with \<^verbatim>\<open>once\<close> is removed as it is called.
\<close>

definition mouseenter :: "env \<Rightarrow> nat \<Rightarrow> page \<Rightarrow> page" where
  "mouseenter E i p =
     (if i < length (links p)
      then (let ls = a_listeners (links p ! i)
            in fold (\<lambda>(h, _). run_a_handler E i h) ls
                 (update_link i (\<lambda>a. a\<lparr>a_listeners := filter (\<lambda>(_, once). \<not> once) ls\<rparr>) p))
      else p)"

section \<open>Oversized images, in development (lines 143-178)\<close>

definition checkImageSizes :: "env \<Rightarrow> page \<Rightarrow> page" where
  "checkImageSizes E p =
     (if hostname E = ''localhost'' \<or> hostname E = ''127.0.0.1''
      then (let p1 = fold (\<lambda>i. update_img i
                             (\<lambda>g. g\<lparr>img_listeners := img_listeners g @ [(LoadEv, CheckSize)]\<rparr>))
                       (select_indices
                          (\<lambda>g. attr_contains ''.png'' (src_attr g) \<or> attr_contains ''.jpg'' (src_attr g))
                          (images p))
                       (p\<lparr>largeImages := []\<rparr>)
            in p1\<lparr>listeners := listeners p1 @ [(WindowLoadEv, ReportLargeImages)]\<rparr>)
      else p)"

text \<open>Lines 167-175; line 171 formats the three fields of a record into one message.\<close>

definition report_large_images :: "page \<Rightarrow> page" where
  "report_large_images p =
     (if length (largeImages p) > 0
      then p\<lparr>console := console p @
               [Group ''Image Optimization Recommendations'',
                Log ''The following images are larger than necessary:''] @
               map LogLarge (largeImages p) @
               [Log ''Consider resizing these images to improve load time.'', GroupEnd]\<rparr>
      else p)"

section \<open>Listeners on an image\<close>

text \<open>Lines 69, 74-75 and 151-161, called with \<^verbatim>\<open>this\<close> the image at position \<open>i\<close>.\<close>

fun run_img_handler :: "env \<Rightarrow> nat \<Rightarrow> img_handler \<Rightarrow> page \<Rightarrow> page" where
  "run_img_handler E i FadeIn p =
     update_img i (\<lambda>g. g\<lparr>classList := classList_add ''loaded'' (classList g)\<rparr>) p"
| "run_img_handler E i WarnFailed p =
     (let p1 = update_img i (\<lambda>g. g\<lparr>classList := classList_add ''error'' (classList g)\<rparr>) p
      in p1\<lparr>console := console p1 @
               [Warn ''Failed to load image:'' (url_prop E (src_attr (images p1 ! i)))]\<rparr>)"
| "run_img_handler E i CheckSize p =
     (let g = images p ! i;
          displaySize = width g * height g;
          naturalSize = naturalWidth g * naturalHeight g
      in if naturalSize > displaySize * 2
         then p\<lparr>largeImages := largeImages p @
                  [\<lparr>li_src = url_prop E (src_attr g), li_natural = naturalSize,
                    li_display = displaySize\<rparr>]\<rparr>
         else p)"

text \<open>
  The browser's side of \<^verbatim>\<open>load\<close> and \<^verbatim>\<open>error\<close> on an image: the listeners of that event
  type registered on the image are called in the order of their registration.
\<close>

definition img_dispatch :: "env \<Rightarrow> img_event \<Rightarrow> nat \<Rightarrow> page \<Rightarrow> page" where
  "img_dispatch E ev i p =
     (if i < length (images p)
      then fold (\<lambda>(e, h) q. if e = ev then run_img_handler E i h q else q)
             (img_listeners (images p ! i)) p
      else p)"

section \<open>Initialisation (lines 181-194) and the script as a whole\<close>

text \<open>
  Lines 181-187. An exception thrown by line 184 ends \<^verbatim>\<open>init\<close> there: what lines 182 and
  183 did stays done, lines 185 and 186 do not run.
\<close>

definition init :: "env \<Rightarrow> page \<Rightarrow> error option \<times> page" where
  "init E p =
     (let p2 = optimizeTouchInteraction E (progressiveImageLoad p)
      in case adaptToNetworkCondition p2 of
           Inl e \<Rightarrow> (Some e, p2)
         | Inr p3 \<Rightarrow> (None, checkImageSizes E (prefetchCriticalResources p3)))"

text \<open>An exception that leaves a listener is reported by the browser and goes no further.\<close>

definition report :: "error option \<times> page \<Rightarrow> page" where
  "report r = (case r of (None, p) \<Rightarrow> p | (Some e, p) \<Rightarrow> p\<lparr>uncaught := uncaught p @ [e]\<rparr>)"

fun run_doc_handler :: "env \<Rightarrow> doc_handler \<Rightarrow> page \<Rightarrow> page" where
  "run_doc_handler E ObserveLazyImages p = observe_lazy_images p"
| "run_doc_handler E SetupAOS p = setup_aos E p"
| "run_doc_handler E RunInit p = report (init E p)"
| "run_doc_handler E TouchNoop p = p"
| "run_doc_handler E ScrollThrottle p = on_scroll p"
| "run_doc_handler E ReportLargeImages p = report_large_images p"

definition doc_dispatch :: "env \<Rightarrow> doc_event \<Rightarrow> page \<Rightarrow> page" where
  "doc_dispatch E ev p =
     fold (\<lambda>(e, h) q. if e = ev then run_doc_handler E h q else q) (listeners p) p"

text \<open>
  Lines 6-229, the script itself, run once when the browser reaches it. When line 193
  throws, the rest of the script (the style sheet of lines 197-227) is not run.
\<close>

definition script :: "env \<Rightarrow> page \<Rightarrow> page" where
  "script E p =
     (let p1 = (if hasIntersectionObserver E
                then p\<lparr>observed := Some [],
                       listeners := listeners p @ [(DOMContentLoadedEv, ObserveLazyImages)]\<rparr>
                else p);
          p2 = p1\<lparr>listeners := listeners p1 @ [(DOMContentLoadedEv, SetupAOS)]\<rparr>
      in if readyStateLoading p2
         then p2\<lparr>listeners := listeners p2 @ [(DOMContentLoadedEv, RunInit)],
                 head_children := head_children p2 @ [StyleSheet]\<rparr>
         else (case init E p2 of
                 (None, p3) \<Rightarrow> p3\<lparr>head_children := head_children p3 @ [StyleSheet]\<rparr>
               | (Some e, p3) \<Rightarrow> p3\<lparr>uncaught := uncaught p3 @ [e]\<rparr>))"

section \<open>The life of the page\<close>

datatype event =
    DocEvent doc_event
  | Intersections "entry list"
  | ImgEvent img_event nat
  | ConnectionChange string
  | MouseEnter nat
  | AnimationFrame

text \<open>
  One event, as the browser delivers it. \<^verbatim>\<open>DOMContentLoaded\<close> and the window's
  \<^verbatim>\<open>load\<close> are dispatched once each, unless they were dispatched before the script
  ran; whether the script saw the ready state \<^verbatim>\<open>loading\<close> plays no part in that, so a
  script that ran \<^verbatim>\<open>init\<close> at once (line 193) still gets \<^verbatim>\<open>DOMContentLoaded\<close> for
  the listeners of lines 30 and 37. Every other event may come any number of times; a
  frame callback runs only when one was requested.
\<close>

fun step :: "env \<Rightarrow> event \<Rightarrow> page \<Rightarrow> page" where
  "step E (DocEvent DOMContentLoadedEv) p =
     (if domContentLoaded_dispatched p then p
      else doc_dispatch E DOMContentLoadedEv
             (p\<lparr>readyStateLoading := False, domContentLoaded_dispatched := True\<rparr>))"
| "step E (DocEvent WindowLoadEv) p =
     (if load_dispatched p then p
      else doc_dispatch E WindowLoadEv
             (p\<lparr>readyStateLoading := False, load_dispatched := True\<rparr>))"
| "step E (DocEvent ev) p = doc_dispatch E ev p"
| "step E (Intersections entries) p = deliver_intersections entries p"
| "step E (ImgEvent ev i) p = img_dispatch E ev i p"
| "step E (ConnectionChange t) p = connection_change t p"
| "step E (MouseEnter i) p = mouseenter E i p"
| "step E AnimationFrame p =
     (if frame_requests p > 0
      then on_frame (p\<lparr>frame_requests := frame_requests p - 1\<rparr>)
      else p)"

definition run :: "env \<Rightarrow> event list \<Rightarrow> page \<Rightarrow> page" where
  "run E evs p = fold (step E) evs p"

section \<open>Observations on a page\<close>

text \<open>The assignments of line 18 made to the image at position \<open>i\<close>, in order.\<close>

definition assignments_to :: "nat \<Rightarrow> page \<Rightarrow> (nat \<times> string) list" where
  "assignments_to i p = filter (\<lambda>a. fst a = i) (src_assignments p)"

text \<open>The guard of lines 14-17 for the image at position \<open>i\<close>: it exists and its
  \<^verbatim>\<open>dataset.src\<close> is truthy.\<close>

definition pending :: "nat \<Rightarrow> page \<Rightarrow> bool" where
  "pending i p =
     (i < length (images p) \<and>
      (case data_src (images p ! i) of None \<Rightarrow> False | Some u \<Rightarrow> u \<noteq> []))"

text \<open>
  What the network adaptation may write and what an exception would leave behind: two
  pages agree on the connection, the classes of the body and the uncaught exceptions.
\<close>

definition untouched :: "page \<Rightarrow> page \<Rightarrow> bool" where
  "untouched p q \<longleftrightarrow>
     connection q = connection p \<and> body_classes q = body_classes p \<and> uncaught q = uncaught p"

text \<open>The listeners of every anchor: one prefetch listener where it was registered and the
  pointer has not entered yet, none elsewhere.\<close>

definition armed :: "page \<Rightarrow> nat list \<Rightarrow> page \<Rightarrow> bool" where
  "armed p js r \<longleftrightarrow>
     length (links r) = length (links p) \<and>
     (\<forall>k < length (links p).
        href_attr (links r ! k) = href_attr (links p ! k) \<and>
        a_listeners (links r ! k) =
          (if attr_contains ''.html'' (href_attr (links p ! k)) \<and> k \<notin> set js
           then [(Prefetch, True)] else []))"

section \<open>Example pages\<close>

definition blank_img :: img where
  "blank_img =
     \<lparr>src_attr = None, data_src = None, loading = None, complete = False, classList = [],
      width = 0, height = 0, naturalWidth = 0, naturalHeight = 0, img_listeners = []\<rparr>"

definition blank_page :: page where
  "blank_page =
     \<lparr>images = [], links = [], body_classes = [], head_children = [], console = [],
      connection = NoConnection, change_listeners = 0, observed = None, listeners = [],
      readyStateLoading = True, domContentLoaded_dispatched = False, load_dispatched = False,
      ticking = False, frame_requests = 0, largeImages = [],
      aos_inits = [], src_assignments = [], uncaught = []\<rparr>"

definition hit :: "nat \<Rightarrow> entry" where
  "hit i = \<lparr>target = i, isIntersecting = True\<rparr>"

definition deferred_page :: "string \<Rightarrow> page" where
  "deferred_page u =
     blank_page\<lparr>images := [blank_img\<lparr>data_src := Some u, loading := Some ''lazy''\<rparr>],
                observed := Some [0]\<rparr>"

definition promoted_page :: page where
  "promoted_page =
     blank_page\<lparr>images := [blank_img\<lparr>src_attr := Some ''photo.jpg''\<rparr>], observed := Some [0]\<rparr>"

definition plain_env :: env where
  "plain_env =
     \<lparr>hasIntersectionObserver = True, hasAOS = True, hasTouch = False,
      userAgent = ''Mozilla/5.0 (X11; Linux x86_64)'', hostname = ''fromrayacamera.example'',
      resolve = (\<lambda>s. ''https://fromrayacamera.example/'' @ s)\<rparr>"

text \<open>Two images without \<^verbatim>\<open>loading="lazy"\<close> and two with it; the first of each pair is
  already complete.\<close>

definition gallery_page :: page where
  "gallery_page =
     blank_page\<lparr>images :=
       [blank_img\<lparr>src_attr := Some ''a.png'', complete := True\<rparr>,
        blank_img\<lparr>src_attr := Some ''b.png''\<rparr>,
        blank_img\<lparr>src_attr := Some ''c.png'', loading := Some ''lazy''\<rparr>,
        blank_img\<lparr>src_attr := Some ''d.png'', loading := Some ''lazy'', complete := True\<rparr>]\<rparr>"

definition nav_page :: page where
  "nav_page =
     blank_page\<lparr>links :=
       [\<lparr>href_attr = Some ''galeri/galeri.html'', a_listeners = []\<rparr>,
        \<lparr>href_attr = Some ''https://instagram.com/fromrayacamera'', a_listeners = []\<rparr>]\<rparr>"

definition online_page :: "string \<Rightarrow> page" where
  "online_page t = blank_page\<lparr>connection := Connection t\<rparr>"


section \<open>Properties of the intersection observer\<close>

lemma distinct_select_indices: "distinct (select_indices P xs)"
  by (simp add: select_indices_def)

lemma set_select_indices: "set (select_indices P xs) = {i. i < length xs \<and> P (xs ! i)}"
  by (auto simp: select_indices_def)

lemma length_images_update_img [simp]: "length (images (update_img i f p)) = length (images p)"
  by (simp add: update_img_def)

lemma nth_images_update_img:
  "images (update_img i f p) ! j =
     (if j = i \<and> i < length (images p) then f (images p ! i) else images p ! j)"
  by (simp add: update_img_def)

lemma length_images_promote [simp]: "length (images (promote i p)) = length (images p)"
  by (simp add: promote_def split: option.splits)

lemma observed_promote [simp]: "observed (promote i p) = observed p"
  by (simp add: promote_def update_img_def split: option.splits)

lemma images_unobserve [simp]: "images (unobserve i p) = images p"
  by (simp add: unobserve_def split: option.splits)

lemma src_assignments_unobserve [simp]: "src_assignments (unobserve i p) = src_assignments p"
  by (simp add: unobserve_def split: option.splits)

lemma nth_images_promote:
  "images (promote i p) ! j =
     (if j = i \<and> i < length (images p)
      then (case data_src (images p ! i) of
              None \<Rightarrow> images p ! i
            | Some u \<Rightarrow> if u = [] then images p ! i
                        else (images p ! i)\<lparr>src_attr := Some u, data_src := None\<rparr>)
      else images p ! j)"
  by (simp add: promote_def update_img_def split: option.splits)

lemma length_images_on_entry [simp]: "length (images (on_entry e p)) = length (images p)"
  by (simp add: on_entry_def)

lemma length_images_imageObserver [simp]:
  "length (images (imageObserver es p)) = length (images p)"
  unfolding imageObserver_def by (induction es arbitrary: p) simp_all

text \<open>An image the callback has promoted stays as it is under every later entry.\<close>

lemma on_entry_keeps_unmarked:
  "data_src (images p ! i) = None \<Longrightarrow> images (on_entry e p) ! i = images p ! i"
  by (auto simp add: on_entry_def nth_images_promote)

lemma imageObserver_keeps_unmarked:
  "data_src (images p ! i) = None \<Longrightarrow> images (imageObserver es p) ! i = images p ! i"
  unfolding imageObserver_def
proof (induction es arbitrary: p)
  case Nil
  show ?case by simp
next
  case (Cons e es)
  have step: "images (on_entry e p) ! i = images p ! i"
    using Cons.prems by (rule on_entry_keeps_unmarked)
  with Cons.prems have "data_src (images (on_entry e p) ! i) = None" by simp
  from Cons.IH [OF this] step show ?case by simp
qed

lemma on_entry_hit:
  assumes "i < length (images p)" "data_src (images p ! i) = Some u" "u \<noteq> []"
    and "target e = i" "isIntersecting e"
  shows "images (on_entry e p) ! i = (images p ! i)\<lparr>src_attr := Some u, data_src := None\<rparr>"
  using assms by (simp add: on_entry_def nth_images_promote)

lemma on_entry_miss:
  assumes "\<not> (target e = i \<and> isIntersecting e)"
  shows "images (on_entry e p) ! i = images p ! i"
  using assms by (auto simp add: on_entry_def nth_images_promote)

lemma promote_not_pending: "\<not> pending i p \<Longrightarrow> promote i p = p"
  by (auto simp: pending_def promote_def split: option.splits)

lemma not_pending_promote: "\<not> pending i (promote i p)"
  by (auto simp: pending_def nth_images_promote split: option.splits)

lemma pending_unobserve [simp]: "pending i (unobserve j p) = pending i p"
  by (simp add: pending_def)

lemma pending_promote_other: "pending i (promote j p) \<Longrightarrow> pending i p"
  by (auto simp: pending_def nth_images_promote split: option.splits if_splits)

lemma on_entry_spends:
  "target e = i \<Longrightarrow> isIntersecting e \<Longrightarrow> \<not> pending i (on_entry e p)"
  by (auto simp: on_entry_def not_pending_promote)

lemma on_entry_stays_spent: "\<not> pending i p \<Longrightarrow> \<not> pending i (on_entry e p)"
  by (auto simp: on_entry_def dest: pending_promote_other)

lemma assignments_to_promote_other:
  "j \<noteq> i \<Longrightarrow> assignments_to i (promote j p) = assignments_to i p"
  by (simp add: assignments_to_def promote_def update_img_def split: option.splits)

lemma assignments_to_unobserve [simp]:
  "assignments_to i (unobserve j p) = assignments_to i p"
  by (simp add: assignments_to_def)

lemma on_entry_spent_quiet:
  assumes "\<not> pending i p"
  shows "images (on_entry e p) ! i = images p ! i"
    and "assignments_to i (on_entry e p) = assignments_to i p"
proof -
  show "images (on_entry e p) ! i = images p ! i"
    using assms by (auto simp: on_entry_def pending_def nth_images_promote split: option.splits)
  show "assignments_to i (on_entry e p) = assignments_to i p"
  proof (cases "target e = i")
    case True
    with assms show ?thesis by (simp add: on_entry_def promote_not_pending)
  next
    case False
    then show ?thesis by (simp add: on_entry_def assignments_to_promote_other)
  qed
qed

lemma imageObserver_spent_quiet:
  "\<not> pending i p \<Longrightarrow>
   images (imageObserver es p) ! i = images p ! i \<and>
   assignments_to i (imageObserver es p) = assignments_to i p \<and>
   \<not> pending i (imageObserver es p)"
  unfolding imageObserver_def
proof (induction es arbitrary: p)
  case Nil
  then show ?case by simp
next
  case (Cons x es)
  from Cons.prems have "\<not> pending i (on_entry x p)" by (rule on_entry_stays_spent)
  from Cons.IH [OF this] on_entry_spent_quiet [OF Cons.prems, of x]
  show ?case by simp
qed

lemma imageObserver_spends:
  "e \<in> set es \<Longrightarrow> target e = i \<Longrightarrow> isIntersecting e \<Longrightarrow> \<not> pending i (imageObserver es p)"
  unfolding imageObserver_def
proof (induction es arbitrary: p)
  case Nil
  then show ?case by simp
next
  case (Cons x es)
  show ?case
  proof (cases "x = e")
    case True
    with Cons.prems have "\<not> pending i (on_entry x p)" by (simp add: on_entry_spends)
    then show ?thesis
      using imageObserver_spent_quiet [of i "on_entry x p" es] by (simp add: imageObserver_def)
  next
    case False
    with Cons.prems have "e \<in> set es" by simp
    from Cons.IH [OF this Cons.prems(2,3)] show ?thesis by simp
  qed
qed

lemma observed_on_entry:
  "observed (on_entry e p) =
     (if isIntersecting e then map_option (filter (\<lambda>t. t \<noteq> target e)) (observed p)
      else observed p)"
  by (simp add: on_entry_def unobserve_def split: option.splits)

lemma observed_imageObserver:
  "observed (imageObserver es p) =
     map_option (filter (\<lambda>t. \<not> (\<exists>e \<in> set es. isIntersecting e \<and> target e = t))) (observed p)"
  unfolding imageObserver_def
proof (induction es arbitrary: p)
  case Nil
  show ?case by (cases "observed p") simp_all
next
  case (Cons x es)
  show ?case
    by (cases "observed p") (auto simp: Cons.IH observed_on_entry intro!: filter_cong)
qed

lemma on_entry_elsewhere:
  assumes "\<not> (target e = i \<and> isIntersecting e)"
  shows "assignments_to i (on_entry e p) = assignments_to i p"
  using assms by (auto simp: on_entry_def assignments_to_promote_other)

lemma imageObserver_elsewhere:
  "\<forall>e \<in> set es. \<not> (target e = i \<and> isIntersecting e) \<Longrightarrow>
   images (imageObserver es p) ! i = images p ! i \<and>
   assignments_to i (imageObserver es p) = assignments_to i p"
  unfolding imageObserver_def
proof (induction es arbitrary: p)
  case Nil
  show ?case by simp
next
  case (Cons x es)
  then have x: "\<not> (target x = i \<and> isIntersecting x)" by simp
  from Cons.prems have "\<forall>e \<in> set es. \<not> (target e = i \<and> isIntersecting e)" by simp
  from Cons.IH [OF this, of "on_entry x p"] on_entry_miss [OF x] on_entry_elsewhere [OF x]
  show ?case by simp
qed

lemma deliver_spent_quiet:
  assumes "\<not> pending i p"
  shows "images (deliver_intersections es p) ! i = images p ! i \<and>
         assignments_to i (deliver_intersections es p) = assignments_to i p \<and>
         \<not> pending i (deliver_intersections es p)"
  using assms imageObserver_spent_quiet [OF assms]
  by (simp add: deliver_intersections_def split: option.splits)

lemma deliver_unobserved:
  assumes "observed p = Some ts" and "i \<notin> set ts"
  shows "images (deliver_intersections es p) ! i = images p ! i"
    and "assignments_to i (deliver_intersections es p) = assignments_to i p"
    and "\<exists>ts'. observed (deliver_intersections es p) = Some ts' \<and> i \<notin> set ts'"
proof -
  let ?es = "filter (\<lambda>e. target e \<in> set ts) es"
  have d: "deliver_intersections es p = imageObserver ?es p"
    using assms by (simp add: deliver_intersections_def)
  have "\<forall>e \<in> set ?es. \<not> (target e = i \<and> isIntersecting e)"
    using assms by auto
  from imageObserver_elsewhere [OF this, of p] d
  show "images (deliver_intersections es p) ! i = images p ! i"
    and "assignments_to i (deliver_intersections es p) = assignments_to i p"
    by simp_all
  show "\<exists>ts'. observed (deliver_intersections es p) = Some ts' \<and> i \<notin> set ts'"
    using assms by (simp add: d observed_imageObserver)
qed

lemma deliveries_unobserved:
  "observed p = Some ts \<Longrightarrow> i \<notin> set ts \<Longrightarrow>
   images (fold deliver_intersections ess p) ! i = images p ! i \<and>
   assignments_to i (fold deliver_intersections ess p) = assignments_to i p"
proof (induction ess arbitrary: p ts)
  case Nil
  show ?case by simp
next
  case (Cons es ess)
  from deliver_unobserved(3) [OF Cons.prems, of es]
  obtain ts' where ts': "observed (deliver_intersections es p) = Some ts'" "i \<notin> set ts'"
    by blast
  from Cons.IH [OF ts'] deliver_unobserved(1,2) [OF Cons.prems, of es]
  show ?case by simp
qed

section \<open>Properties of progressive image loading\<close>

lemma fold_preserves:
  assumes "\<And>x q. P q \<Longrightarrow> P (g x q)" and "P p"
  shows "P (fold g xs p)"
  using assms(2) by (induction xs arbitrary: p) (simp_all add: assms(1))

lemma length_images_fold_update_img [simp]:
  "length (images (fold (\<lambda>i. update_img i f) js p)) = length (images p)"
  by (induction js arbitrary: p) simp_all

lemma nth_images_fold_update_img:
  "distinct js \<Longrightarrow>
   images (fold (\<lambda>i. update_img i f) js p) ! j =
     (if j \<in> set js \<and> j < length (images p) then f (images p ! j) else images p ! j)"
proof (induction js arbitrary: p)
  case Nil
  show ?case by simp
next
  case (Cons k js)
  then have "distinct js" and "k \<notin> set js" by simp_all
  with Cons.IH [of "update_img k f p"] show ?case
    by (auto simp: nth_images_update_img)
qed

lemma nth_images_progressiveImageLoad:
  "images (progressiveImageLoad p) ! i =
     (if i < length (images p) \<and> loading (images p ! i) = Some ''lazy''
      then track (images p ! i) else images p ! i)"
  unfolding progressiveImageLoad_def
  by (simp add: nth_images_fold_update_img distinct_select_indices set_select_indices attr_is_def)

lemma length_images_progressiveImageLoad [simp]:
  "length (images (progressiveImageLoad p)) = length (images p)"
  by (simp add: progressiveImageLoad_def)

lemma update_img_console [simp]: "console (update_img i f p) = console p"
  by (simp add: update_img_def)

lemma console_progressiveImageLoad [simp]: "console (progressiveImageLoad p) = console p"
  unfolding progressiveImageLoad_def
  by (rule fold_preserves [where P = "\<lambda>q. console q = console p"]) simp_all

lemma in_classList_add [simp]: "x \<in> set (classList_add c cs) \<longleftrightarrow> x = c \<or> x \<in> set cs"
  by (auto simp: classList_add_def)

lemma in_classList_remove [simp]: "x \<in> set (classList_remove c cs) \<longleftrightarrow> x \<noteq> c \<and> x \<in> set cs"
  by (auto simp: classList_remove_def)

lemma length_images_run_img_handler [simp]:
  "length (images (run_img_handler E i h p)) = length (images p)"
  by (cases h) (simp_all add: Let_def)

text \<open>What one listener does to the image it is called on.\<close>

lemma classList_run_img_handler:
  "i < length (images p) \<Longrightarrow>
   classList (images (run_img_handler E i h p) ! i) =
     (case h of FadeIn \<Rightarrow> classList_add ''loaded'' (classList (images p ! i))
      | WarnFailed \<Rightarrow> classList_add ''error'' (classList (images p ! i))
      | CheckSize \<Rightarrow> classList (images p ! i))"
  by (cases h) (simp_all add: Let_def nth_images_update_img)

lemma classes_grow_run_img_handler:
  "i < length (images p) \<Longrightarrow> c \<in> set (classList (images p ! i)) \<Longrightarrow>
   c \<in> set (classList (images (run_img_handler E i h p) ! i))"
  by (simp add: classList_run_img_handler split: img_handler.splits)

lemma classes_grow_listeners:
  "i < length (images p) \<Longrightarrow> c \<in> set (classList (images p ! i)) \<Longrightarrow>
   c \<in> set (classList (images
     (fold (\<lambda>(e, h) q. if e = ev then run_img_handler E i h q else q) ls p) ! i))"
proof (induction ls arbitrary: p)
  case Nil
  then show ?case by simp
next
  case (Cons x ls)
  obtain e h where x: "x = (e, h)" by (cases x)
  show ?case
  proof (cases "e = ev")
    case True
    with Cons.prems have "c \<in> set (classList (images (run_img_handler E i h p) ! i))"
      by (simp add: classes_grow_run_img_handler)
    with Cons.IH [of "run_img_handler E i h p"] Cons.prems True x show ?thesis by simp
  next
    case False
    with Cons.IH [of p] Cons.prems x show ?thesis by simp
  qed
qed

lemma listener_marks:
  assumes "i < length (images p)" and "(ev, h) \<in> set ls"
    and "h = FadeIn \<and> c = ''loaded'' \<or> h = WarnFailed \<and> c = ''error''"
  shows "c \<in> set (classList (images
     (fold (\<lambda>(e, h) q. if e = ev then run_img_handler E i h q else q) ls p) ! i))"
  using assms(1,2)
proof (induction ls arbitrary: p)
  case Nil
  then show ?case by simp
next
  case (Cons x ls)
  obtain e' h' where x: "x = (e', h')" by (cases x)
  show ?case
  proof (cases "x = (ev, h)")
    case True
    have "c \<in> set (classList (images (run_img_handler E i h p) ! i))"
      using assms(3) Cons.prems(1) by (auto simp: classList_run_img_handler)
    then show ?thesis
      using True Cons.prems(1) classes_grow_listeners [of i "run_img_handler E i h p" c ev E ls]
      by simp
  next
    case False
    with Cons.prems have "(ev, h) \<in> set ls" by simp
    with Cons.IH [of "if e' = ev then run_img_handler E i h' p else p"] Cons.prems(1) x
    show ?thesis by simp
  qed
qed

section \<open>The page without a connection signal\<close>

lemma untouched_refl [simp]: "untouched p p"
  by (simp add: untouched_def)

lemma untouched_trans: "untouched p q \<Longrightarrow> untouched q r \<Longrightarrow> untouched p r"
  by (simp add: untouched_def)

lemma fold_untouched:
  assumes "\<And>x q. untouched q (g x q)"
  shows "untouched p (fold g xs p)"
  by (rule fold_preserves [where P = "untouched p"])
     (auto intro: untouched_trans assms)

lemma fold_untouched_offline:
  assumes "\<And>x q. connection q = NoConnection \<Longrightarrow> untouched q (g x q)"
    and "connection p = NoConnection"
  shows "untouched p (fold g xs p)"
proof -
  have "untouched p (fold g xs p) \<and> connection (fold g xs p) = NoConnection"
    by (rule fold_preserves
          [where P = "\<lambda>q. untouched p q \<and> connection q = NoConnection"])
       (use assms in \<open>auto intro: untouched_trans simp: untouched_def\<close>)
  then show ?thesis by simp
qed

lemma untouched_update_img [simp]: "untouched p (update_img i f p)"
  by (simp add: untouched_def update_img_def)

lemma untouched_update_link [simp]: "untouched p (update_link i f p)"
  by (simp add: untouched_def update_link_def)

lemma untouched_observe [simp]: "untouched p (observe i p)"
  by (simp add: untouched_def observe_def split: option.splits)

lemma untouched_on_entry [simp]: "untouched p (on_entry e p)"
  by (simp add: untouched_def on_entry_def unobserve_def promote_def update_img_def
        split: option.splits)

lemma untouched_deliver_intersections [simp]: "untouched p (deliver_intersections es p)"
  by (simp add: deliver_intersections_def imageObserver_def fold_untouched split: option.splits)

lemma untouched_observe_lazy_images [simp]: "untouched p (observe_lazy_images p)"
  by (simp add: observe_lazy_images_def fold_untouched)

lemma untouched_setup_aos [simp]: "untouched p (setup_aos E p)"
  by (simp add: untouched_def setup_aos_def)

lemma untouched_progressiveImageLoad [simp]: "untouched p (progressiveImageLoad p)"
  by (simp add: progressiveImageLoad_def fold_untouched)

lemma untouched_optimizeTouchInteraction [simp]: "untouched p (optimizeTouchInteraction E p)"
  by (simp add: untouched_def optimizeTouchInteraction_def)

lemma untouched_prefetchCriticalResources [simp]: "untouched p (prefetchCriticalResources p)"
  by (simp add: prefetchCriticalResources_def fold_untouched)

lemma untouched_checkImageSizes [simp]: "untouched p (checkImageSizes E p)"
proof -
  have "untouched p (p\<lparr>largeImages := []\<rparr>)" by (simp add: untouched_def)
  then have "untouched p (fold (\<lambda>i. update_img i f) js (p\<lparr>largeImages := []\<rparr>))" for f js
    by (rule untouched_trans) (simp add: fold_untouched)
  then show ?thesis
    by (simp add: checkImageSizes_def Let_def) (simp add: untouched_def)
qed

lemma untouched_report_large_images [simp]: "untouched p (report_large_images p)"
  by (simp add: untouched_def report_large_images_def)

lemma untouched_on_scroll [simp]: "untouched p (on_scroll p)"
  by (simp add: untouched_def on_scroll_def)

lemma untouched_run_img_handler [simp]: "untouched p (run_img_handler E i h p)"
  by (cases h) (simp_all add: untouched_def update_img_def Let_def)

lemma untouched_img_dispatch [simp]: "untouched p (img_dispatch E ev i p)"
  by (simp add: img_dispatch_def fold_untouched split: prod.splits)

lemma untouched_run_a_handler [simp]: "untouched p (run_a_handler E i h p)"
  by (cases h) (simp add: untouched_def)

lemma untouched_mouseenter [simp]: "untouched p (mouseenter E i p)"
proof -
  have "untouched q (fold (\<lambda>(h, _). run_a_handler E i h) ls q)"
    for q and ls :: "(a_handler \<times> bool) list"
    by (rule fold_untouched) (simp split: prod.splits)
  from untouched_trans [OF untouched_update_link this] show ?thesis
    by (simp add: mouseenter_def Let_def)
qed

text \<open>Without \<^verbatim>\<open>navigator.connection\<close> the network adaptation does nothing at all.\<close>

lemma adaptToNetworkCondition_offline:
  "connection p = NoConnection \<Longrightarrow> adaptToNetworkCondition p = Inr p"
  by (simp add: adaptToNetworkCondition_def)

lemma untouched_init_offline:
  assumes "connection p = NoConnection"
  shows "fst (init E p) = None" and "untouched p (snd (init E p))"
proof -
  let ?p2 = "optimizeTouchInteraction E (progressiveImageLoad p)"
  have u2: "untouched p ?p2"
    by (rule untouched_trans [of _ "progressiveImageLoad p"]) simp_all
  with assms have "connection ?p2 = NoConnection" by (simp add: untouched_def)
  then have a: "adaptToNetworkCondition ?p2 = Inr ?p2" by (rule adaptToNetworkCondition_offline)
  then show "fst (init E p) = None" by (simp add: init_def Let_def)
  have "untouched ?p2 (checkImageSizes E (prefetchCriticalResources ?p2))"
    by (rule untouched_trans [of _ "prefetchCriticalResources ?p2"]) simp_all
  with u2 a show "untouched p (snd (init E p))"
    by (auto simp: init_def Let_def intro: untouched_trans)
qed

lemma untouched_run_doc_handler_offline:
  "connection p = NoConnection \<Longrightarrow> untouched p (run_doc_handler E h p)"
proof (cases h)
  case RunInit
  assume off: "connection p = NoConnection"
  obtain e q where r: "init E p = (e, q)" by (cases "init E p")
  with untouched_init_offline [OF off, of E] have "e = None" "untouched p q" by simp_all
  with r RunInit show ?thesis by (simp add: report_def)
qed simp_all

lemma untouched_doc_dispatch_offline:
  assumes "connection p = NoConnection"
  shows "untouched p (doc_dispatch E ev p)"
  unfolding doc_dispatch_def
  by (rule fold_untouched_offline [OF _ assms])
     (simp add: untouched_run_doc_handler_offline split: prod.splits)

lemma untouched_step_offline:
  assumes "connection p = NoConnection"
  shows "untouched p (step E ev p)"
proof (cases ev)
  case (DocEvent d)
  have later: "untouched p (doc_dispatch E d q)"
    if "untouched p q" for q
  proof -
    from that assms have "connection q = NoConnection" by (simp add: untouched_def)
    then have "untouched q (doc_dispatch E d q)" by (rule untouched_doc_dispatch_offline)
    with that show ?thesis by (rule untouched_trans)
  qed
  have "untouched p (p\<lparr>readyStateLoading := False, domContentLoaded_dispatched := True\<rparr>)"
    and "untouched p (p\<lparr>readyStateLoading := False, load_dispatched := True\<rparr>)"
    by (simp_all add: untouched_def)
  with DocEvent assms later show ?thesis
    by (cases d) (simp_all add: untouched_doc_dispatch_offline)
next
  case (ConnectionChange t)
  with assms show ?thesis by (simp add: connection_change_def)
next
  case AnimationFrame
  then show ?thesis by (simp add: untouched_def on_frame_def)
qed simp_all

lemma untouched_run_offline:
  assumes "connection p = NoConnection"
  shows "untouched p (run E evs p)"
  unfolding run_def
  by (rule fold_untouched_offline [OF _ assms]) (rule untouched_step_offline)

lemma untouched_script_offline:
  assumes "connection p = NoConnection"
  shows "untouched p (script E p)"
proof -
  define p1 where "p1 = (if hasIntersectionObserver E
                then p\<lparr>observed := Some [],
                       listeners := listeners p @ [(DOMContentLoadedEv, ObserveLazyImages)]\<rparr>
                else p)"
  define p2 where "p2 = p1\<lparr>listeners := listeners p1 @ [(DOMContentLoadedEv, SetupAOS)]\<rparr>"
  have u2: "untouched p p2" by (simp add: p1_def p2_def untouched_def)
  with assms have off: "connection p2 = NoConnection" by (simp add: untouched_def)
  obtain e q where r: "init E p2 = (e, q)" by (cases "init E p2")
  with untouched_init_offline [OF off, of E] have eq: "e = None" "untouched p2 q" by simp_all
  with u2 have "untouched p q" by (blast intro: untouched_trans)
  then have "untouched p (q\<lparr>head_children := head_children q @ [StyleSheet]\<rparr>)"
    by (simp add: untouched_def)
  moreover have "untouched p (p2\<lparr>listeners := listeners p2 @ [(DOMContentLoadedEv, RunInit)],
                 head_children := head_children p2 @ [StyleSheet]\<rparr>)"
    using u2 by (simp add: untouched_def)
  ultimately show ?thesis
    using r eq unfolding script_def Let_def p1_def [symmetric] p2_def [symmetric]
    by simp
qed

section \<open>Properties of network adaptation, animation settings and prefetching\<close>

lemma on_change_facts:
  assumes "connection p = Connection t"
  shows "low_bandwidth (on_change p) \<longleftrightarrow> t = ''slow-2g'' \<or> t = ''2g''"
    and "connection (on_change p) = Connection t"
    and "change_listeners (on_change p) = change_listeners p"
  using assms by (auto simp: on_change_def low_bandwidth_def)

lemma on_change_repeated:
  assumes "connection p = Connection t"
  shows "connection ((on_change ^^ n) p) = Connection t \<and>
         change_listeners ((on_change ^^ n) p) = change_listeners p \<and>
         (0 < n \<longrightarrow> (low_bandwidth ((on_change ^^ n) p) \<longleftrightarrow> t = ''slow-2g'' \<or> t = ''2g''))"
proof (induction n)
  case 0
  from assms show ?case by simp
next
  case (Suc n)
  then have c: "connection ((on_change ^^ n) p) = Connection t" by simp
  from on_change_facts [OF c] Suc show ?case by simp
qed

lemma connection_change_facts:
  assumes "connection p = Connection t0" and "0 < change_listeners p"
  shows "connection (connection_change t p) = Connection t"
    and "change_listeners (connection_change t p) = change_listeners p"
    and "low_bandwidth (connection_change t p) \<longleftrightarrow> t = ''slow-2g'' \<or> t = ''2g''"
  using assms on_change_repeated [of "p\<lparr>connection := Connection t\<rparr>" t "change_listeners p"]
  by (simp_all add: connection_change_def)

lemma connection_changes_keep_listening:
  "connection p = Connection t0 \<Longrightarrow> 0 < change_listeners p \<Longrightarrow>
   (\<exists>t'. connection (fold connection_change ts p) = Connection t') \<and>
   0 < change_listeners (fold connection_change ts p)"
proof (induction ts arbitrary: p t0)
  case Nil
  then show ?case by simp
next
  case (Cons t ts)
  from connection_change_facts(1,2) [OF Cons.prems, of t] Cons.prems(2)
  have "connection (connection_change t p) = Connection t"
    "0 < change_listeners (connection_change t p)" by simp_all
  from Cons.IH [OF this] show ?case by simp
qed

lemma adaptToNetworkCondition_online:
  assumes "connection p = Connection t0"
  shows "\<exists>q. adaptToNetworkCondition p = Inr q \<and> connection q = Connection t0 \<and>
             0 < change_listeners q"
  using assms by (simp add: adaptToNetworkCondition_def Let_def)

lemma length_links_update_link [simp]: "length (links (update_link i f p)) = length (links p)"
  by (simp add: update_link_def)

lemma nth_links_update_link:
  "links (update_link i f p) ! j =
     (if j = i \<and> i < length (links p) then f (links p ! i) else links p ! j)"
  by (simp add: update_link_def)

lemma length_links_fold_update_link [simp]:
  "length (links (fold (\<lambda>i. update_link i f) js p)) = length (links p)"
  by (induction js arbitrary: p) simp_all

lemma nth_links_fold_update_link:
  "distinct js \<Longrightarrow>
   links (fold (\<lambda>i. update_link i f) js p) ! j =
     (if j \<in> set js \<and> j < length (links p) then f (links p ! j) else links p ! j)"
proof (induction js arbitrary: p)
  case Nil
  show ?case by simp
next
  case (Cons k js)
  then have "distinct js" and "k \<notin> set js" by simp_all
  with Cons.IH [of "update_link k f p"] show ?case
    by (auto simp: nth_links_update_link)
qed

lemma head_children_update_link [simp]: "head_children (update_link i f p) = head_children p"
  by (simp add: update_link_def)

lemma head_children_prefetchCriticalResources [simp]:
  "head_children (prefetchCriticalResources p) = head_children p"
  unfolding prefetchCriticalResources_def
  by (rule fold_preserves [where P = "\<lambda>q. head_children q = head_children p"]) simp_all

lemma nth_links_prefetchCriticalResources:
  "links (prefetchCriticalResources p) ! i =
     (if i < length (links p) \<and> attr_contains ''.html'' (href_attr (links p ! i))
      then (links p ! i)\<lparr>a_listeners := a_listeners (links p ! i) @ [(Prefetch, True)]\<rparr>
      else links p ! i)"
  unfolding prefetchCriticalResources_def
  by (simp add: nth_links_fold_update_link distinct_select_indices set_select_indices)

lemma length_links_prefetchCriticalResources [simp]:
  "length (links (prefetchCriticalResources p)) = length (links p)"
  by (simp add: prefetchCriticalResources_def)

lemma armed_prefetchCriticalResources:
  assumes "\<forall>a \<in> set (links p). a_listeners a = []"
  shows "armed p [] (prefetchCriticalResources p)"
  using assms by (simp add: armed_def nth_links_prefetchCriticalResources)

lemma links_run_a_handler [simp]: "links (run_a_handler E i h p) = links p"
  by (cases h) simp

lemma links_fold_run_a_handler [simp]:
  "links (fold (\<lambda>(h, _). run_a_handler E i h) (ls :: (a_handler \<times> bool) list) r) = links r"
  by (induction ls arbitrary: r) auto

lemma mouseenter_armed:
  assumes "armed p js r"
  shows "armed p (js @ [i]) (mouseenter E i r)"
    and "head_children (mouseenter E i r) =
           head_children r @
             (if i \<notin> set js \<and> i < length (links p) \<and>
                 attr_contains ''.html'' (href_attr (links p ! i))
              then [PrefetchLink (url_prop E (href_attr (links p ! i)))] else [])"
proof -
  show "armed p (js @ [i]) (mouseenter E i r)"
    using assms by (auto simp: armed_def mouseenter_def Let_def nth_links_update_link)
  show "head_children (mouseenter E i r) =
           head_children r @
             (if i \<notin> set js \<and> i < length (links p) \<and>
                 attr_contains ''.html'' (href_attr (links p ! i))
              then [PrefetchLink (url_prop E (href_attr (links p ! i)))] else [])"
    using assms by (auto simp: armed_def mouseenter_def Let_def nth_links_update_link)
qed

lemma mouseenters_armed:
  "armed p js r \<Longrightarrow> armed p (js @ ks) (fold (mouseenter E) ks r)"
proof (induction ks arbitrary: js r)
  case Nil
  then show ?case by simp
next
  case (Cons k ks)
  from Cons.IH [OF mouseenter_armed(1) [OF Cons.prems, of k E]] show ?case by simp
qed

section \<open>The claims\<close>

lemmas eval_defs = blank_img_def blank_page_def plain_env_def gallery_page_def nav_page_def
  online_page_def
  select_indices_def attr_is_def attr_contains_def update_img_def update_link_def track_def
  progressiveImageLoad_def img_dispatch_def classList_add_def classList_remove_def url_prop_def
  prefetchCriticalResources_def mouseenter_def

lemmas example_defs = blank_img_def blank_page_def hit_def deferred_page_def


text \<open>
  Claim C1, as amended. An image whose \<^verbatim>\<open>data-src\<close> attribute holds a non-empty URL, and
  for which the observer's callback receives an intersecting entry (anywhere in the batch),
  has that URL as its \<^verbatim>\<open>src\<close> attribute afterwards, and no \<^verbatim>\<open>data-src\<close> attribute.
\<close>

theorem activation_copies_pending_source:
  assumes "i < length (images p)"
    and "data_src (images p ! i) = Some u" and "u \<noteq> []"
    and "e \<in> set es" and "target e = i" and "isIntersecting e"
  shows "src_attr (images (imageObserver es p) ! i) = Some u \<and>
         data_src (images (imageObserver es p) ! i) = None"
  using assms unfolding imageObserver_def
proof (induction es arbitrary: p)
  case Nil
  then show ?case by simp
next
  case (Cons x es)
  show ?case
  proof (cases "target x = i \<and> isIntersecting x")
    case True
    then have now: "images (on_entry x p) ! i = (images p ! i)\<lparr>src_attr := Some u, data_src := None\<rparr>"
      using Cons.prems by (simp add: on_entry_hit)
    then have "data_src (images (on_entry x p) ! i) = None" by simp
    then have "images (imageObserver es (on_entry x p)) ! i = images (on_entry x p) ! i"
      by (rule imageObserver_keeps_unmarked)
    with now show ?thesis by (simp add: imageObserver_def)
  next
    case False
    then have same: "images (on_entry x p) ! i = images p ! i"
      by (rule on_entry_miss)
    from False Cons.prems have "e \<in> set es" by auto
    with Cons.IH [of "on_entry x p"] same Cons.prems show ?thesis by simp
  qed
qed

theorem activation_copies_pending_source_witness:
  "0 < length (images (deferred_page ''photo.jpg'')) \<and>
   data_src (images (deferred_page ''photo.jpg'') ! 0) = Some ''photo.jpg'' \<and>
   ''photo.jpg'' \<noteq> [] \<and> hit 0 \<in> set [hit 0] \<and> target (hit 0) = 0 \<and> isIntersecting (hit 0) \<and>
   src_attr (images (imageObserver [hit 0] (deferred_page ''photo.jpg'')) ! 0) = Some ''photo.jpg'' \<and>
   data_src (images (imageObserver [hit 0] (deferred_page ''photo.jpg'')) ! 0) = None"
  using activation_copies_pending_source
          [of 0 "deferred_page ''photo.jpg''" "''photo.jpg''" "hit 0" "[hit 0]"]
  by (simp add: example_defs)

text \<open>
  The claim as written speaks of every image with a \<^verbatim>\<open>data-src\<close> attribute. Line 17 tests
  the truthiness of the value, so an image with \<^verbatim>\<open>data-src=""\<close> is left as it was: no
  source, and the attribute still there.
\<close>

theorem empty_marker_is_not_promoted:
  "data_src (images (deferred_page []) ! 0) = Some [] \<and>
   target (hit 0) = 0 \<and> isIntersecting (hit 0) \<and>
   src_attr (images (imageObserver [hit 0] (deferred_page [])) ! 0) = None \<and>
   data_src (images (imageObserver [hit 0] (deferred_page [])) ! 0) = Some []"
  by (simp add: example_defs imageObserver_def on_entry_def promote_def unobserve_def)

text \<open>
  Claim C2. Once the callback has processed an intersecting entry for an image, calling
  it again with any batch leaves that image as it is and makes no further assignment to
  its source; the image's guard is false and the image is no longer among the observer's
  targets.
\<close>

theorem repeated_intersection_is_noop:
  assumes "e \<in> set es" and "target e = i" and "isIntersecting e"
  shows "images (imageObserver es' (imageObserver es p)) ! i = images (imageObserver es p) ! i \<and>
         assignments_to i (imageObserver es' (imageObserver es p)) =
           assignments_to i (imageObserver es p) \<and>
         images (deliver_intersections es' (imageObserver es p)) ! i =
           images (imageObserver es p) ! i \<and>
         assignments_to i (deliver_intersections es' (imageObserver es p)) =
           assignments_to i (imageObserver es p) \<and>
         \<not> pending i (imageObserver es p) \<and>
         (\<forall>ts. observed (imageObserver es p) = Some ts \<longrightarrow> i \<notin> set ts)"
proof -
  have spent: "\<not> pending i (imageObserver es p)"
    using assms by (rule imageObserver_spends)
  have "\<forall>ts. observed (imageObserver es p) = Some ts \<longrightarrow> i \<notin> set ts"
    using assms by (auto simp: observed_imageObserver)
  with spent imageObserver_spent_quiet [OF spent, of es'] deliver_spent_quiet [OF spent, of es']
  show ?thesis by simp
qed

theorem repeated_intersection_is_noop_witness:
  "hit 0 \<in> set [hit 0] \<and> target (hit 0) = 0 \<and> isIntersecting (hit 0) \<and>
   images (imageObserver [hit 0, hit 0] (imageObserver [hit 0] (deferred_page ''photo.jpg''))) ! 0 =
     images (imageObserver [hit 0] (deferred_page ''photo.jpg'')) ! 0 \<and>
   assignments_to 0 (imageObserver [hit 0, hit 0] (imageObserver [hit 0] (deferred_page ''photo.jpg''))) =
     [(0, ''photo.jpg'')]"
  using repeated_intersection_is_noop
          [of "hit 0" "[hit 0]" 0 "[hit 0, hit 0]" "deferred_page ''photo.jpg''"]
  by (simp add: example_defs imageObserver_def on_entry_def promote_def unobserve_def update_img_def
        assignments_to_def)

text \<open>
  Claim C10. An observed image without a \<^verbatim>\<open>data-src\<close> attribute that is reported as
  intersecting keeps its source (the whole element is unchanged, and nothing is assigned),
  and is removed from the observer's targets. From then on, in any page state with that
  target list and whatever the image's attributes are, no sequence of intersection events
  changes the image or assigns its source.
\<close>

theorem unmarked_image_is_retired:
  assumes "observed p = Some ts" and "i \<in> set ts"
    and "i < length (images p)" and "data_src (images p ! i) = None"
    and "e \<in> set es" and "target e = i" and "isIntersecting e"
  shows "images (deliver_intersections es p) ! i = images p ! i \<and>
         assignments_to i (deliver_intersections es p) = assignments_to i p \<and>
         (\<exists>ts'. observed (deliver_intersections es p) = Some ts' \<and> i \<notin> set ts') \<and>
         (\<forall>r ess. observed r = observed (deliver_intersections es p) \<longrightarrow>
            images (fold deliver_intersections ess r) ! i = images r ! i \<and>
            assignments_to i (fold deliver_intersections ess r) = assignments_to i r)"
proof -
  let ?q = "deliver_intersections es p"
  have spent: "\<not> pending i p"
    using assms(4) by (simp add: pending_def)
  have gone: "\<exists>ts'. observed ?q = Some ts' \<and> i \<notin> set ts'"
    using assms by (auto simp: deliver_intersections_def observed_imageObserver)
  then obtain ts' where ts': "observed ?q = Some ts'" "i \<notin> set ts'" by blast
  have later: "\<forall>r ess. observed r = observed ?q \<longrightarrow>
            images (fold deliver_intersections ess r) ! i = images r ! i \<and>
            assignments_to i (fold deliver_intersections ess r) = assignments_to i r"
    using ts' deliveries_unobserved [of _ ts' i] by simp
  from deliver_spent_quiet [OF spent, of es] gone later show ?thesis by simp
qed

theorem unmarked_image_is_retired_witness:
  "observed promoted_page = Some [0] \<and> 0 \<in> set [0::nat] \<and> 0 < length (images promoted_page) \<and>
   data_src (images promoted_page ! 0) = None \<and>
   hit 0 \<in> set [hit 0] \<and> target (hit 0) = 0 \<and> isIntersecting (hit 0) \<and>
   src_attr (images (deliver_intersections [hit 0] promoted_page) ! 0) = Some ''photo.jpg'' \<and>
   observed (deliver_intersections [hit 0] promoted_page) = Some [] \<and>
   images (fold deliver_intersections [[hit 0], [hit 0]]
             (deliver_intersections [hit 0] promoted_page)) ! 0 =
     images (deliver_intersections [hit 0] promoted_page) ! 0"
  using unmarked_image_is_retired [of promoted_page "[0]" 0 "hit 0" "[hit 0]"]
  by (simp add: example_defs promoted_page_def deliver_intersections_def imageObserver_def
        on_entry_def promote_def unobserve_def)

text \<open>
  Claim C3, as amended. Every image with \<^verbatim>\<open>loading="lazy"\<close>, with or without a
  \<^verbatim>\<open>data-src\<close> attribute, is tracked: when it is complete at registration it is marked
  "loaded" there; otherwise the two listeners are attached, and a later \<^verbatim>\<open>load\<close> event
  marks it "loaded", a later \<^verbatim>\<open>error\<close> event marks it "error".
\<close>

theorem lazy_images_are_tracked:
  assumes "i < length (images p)" and "loading (images p ! i) = Some ''lazy''"
  shows "(complete (images p ! i) \<longrightarrow>
            ''loaded'' \<in> set (classList (images (progressiveImageLoad p) ! i))) \<and>
         (\<not> complete (images p ! i) \<longrightarrow>
            (LoadEv, FadeIn) \<in> set (img_listeners (images (progressiveImageLoad p) ! i)) \<and>
            (ErrorEv, WarnFailed) \<in> set (img_listeners (images (progressiveImageLoad p) ! i)) \<and>
            ''loaded'' \<in> set (classList
                (images (img_dispatch E LoadEv i (progressiveImageLoad p)) ! i)) \<and>
            ''error'' \<in> set (classList
                (images (img_dispatch E ErrorEv i (progressiveImageLoad p)) ! i)))"
proof -
  let ?q = "progressiveImageLoad p"
  have q: "images ?q ! i = track (images p ! i)"
    using assms by (simp add: nth_images_progressiveImageLoad)
  have len: "i < length (images ?q)" using assms by simp
  show ?thesis
  proof (cases "complete (images p ! i)")
    case True
    with q show ?thesis by (simp add: track_def)
  next
    case False
    with q have ls: "(LoadEv, FadeIn) \<in> set (img_listeners (images ?q ! i))"
      "(ErrorEv, WarnFailed) \<in> set (img_listeners (images ?q ! i))"
      by (simp_all add: track_def)
    have "''loaded'' \<in> set (classList (images (img_dispatch E LoadEv i ?q) ! i))"
      using len listener_marks [OF len ls(1), of "''loaded''" E]
      by (simp add: img_dispatch_def)
    moreover have "''error'' \<in> set (classList (images (img_dispatch E ErrorEv i ?q) ! i))"
      using len listener_marks [OF len ls(2), of "''error''" E]
      by (simp add: img_dispatch_def)
    ultimately show ?thesis using False ls by simp
  qed
qed

theorem lazy_images_are_tracked_witness:
  "2 < length (images gallery_page) \<and> loading (images gallery_page ! 2) = Some ''lazy'' \<and>
   \<not> complete (images gallery_page ! 2) \<and>
   classList (images (img_dispatch plain_env LoadEv 2 (progressiveImageLoad gallery_page)) ! 2) =
     [''loaded''] \<and>
   classList (images (img_dispatch plain_env ErrorEv 2 (progressiveImageLoad gallery_page)) ! 2) =
     [''error''] \<and>
   3 < length (images gallery_page) \<and> loading (images gallery_page ! 3) = Some ''lazy'' \<and>
   complete (images gallery_page ! 3) \<and>
   ''loaded'' \<in> set (classList (images (progressiveImageLoad gallery_page) ! 3))"
  using lazy_images_are_tracked [of 2 gallery_page plain_env]
    lazy_images_are_tracked [of 3 gallery_page plain_env]
  by (simp add: eval_defs)

text \<open>
  The claim as written speaks of every image of the document. Line 61 selects
  \<^verbatim>\<open>img[loading="lazy"]\<close> only: an image without that attribute gets no listener and no
  class, complete or not, whatever happens to it later.
\<close>

theorem untracked_eager_images:
  "loading (images gallery_page ! 0) = None \<and> complete (images gallery_page ! 0) \<and>
   classList (images (progressiveImageLoad gallery_page) ! 0) = [] \<and>
   img_listeners (images (progressiveImageLoad gallery_page) ! 0) = [] \<and>
   loading (images gallery_page ! 1) = None \<and> \<not> complete (images gallery_page ! 1) \<and>
   img_listeners (images (progressiveImageLoad gallery_page) ! 1) = [] \<and>
   classList (images (img_dispatch plain_env LoadEv 1 (progressiveImageLoad gallery_page)) ! 1) = [] \<and>
   classList (images (img_dispatch plain_env ErrorEv 1 (progressiveImageLoad gallery_page)) ! 1) = []"
  by (simp add: eval_defs)

text \<open>
  Claim C4, as amended. An image with \<^verbatim>\<open>loading="lazy"\<close> that is not complete when
  \<^verbatim>\<open>progressiveImageLoad\<close> registers it (and carries no listener of the script before)
  gets, on an \<^verbatim>\<open>error\<close> event, the class "error" and no other class, so "loaded" only
  if it had it before; and exactly one warning is written, holding the image's
  \<^verbatim>\<open>src\<close>.
\<close>

theorem failed_image_is_marked_once:
  assumes "i < length (images p)" and "loading (images p ! i) = Some ''lazy''"
    and "\<not> complete (images p ! i)" and "img_listeners (images p ! i) = []"
  shows "classList (images (img_dispatch E ErrorEv i (progressiveImageLoad p)) ! i) =
           classList_add ''error'' (classList (images p ! i)) \<and>
         ''error'' \<in> set (classList
             (images (img_dispatch E ErrorEv i (progressiveImageLoad p)) ! i)) \<and>
         (''loaded'' \<in> set (classList
             (images (img_dispatch E ErrorEv i (progressiveImageLoad p)) ! i)) \<longleftrightarrow>
          ''loaded'' \<in> set (classList (images p ! i))) \<and>
         console (img_dispatch E ErrorEv i (progressiveImageLoad p)) =
           console p @ [Warn ''Failed to load image:'' (url_prop E (src_attr (images p ! i)))]"
proof -
  let ?q = "progressiveImageLoad p"
  have q: "images ?q ! i = track (images p ! i)"
    using assms by (simp add: nth_images_progressiveImageLoad)
  with assms have ls: "img_listeners (images ?q ! i) = [(LoadEv, FadeIn), (ErrorEv, WarnFailed)]"
    by (simp add: track_def)
  have same: "classList (images ?q ! i) = classList (images p ! i)"
    "src_attr (images ?q ! i) = src_attr (images p ! i)"
    using q assms by (simp_all add: track_def)
  show ?thesis
    using assms(1) ls same
    by (simp add: img_dispatch_def Let_def nth_images_update_img)
qed

theorem failed_image_is_marked_once_witness:
  "2 < length (images gallery_page) \<and> loading (images gallery_page ! 2) = Some ''lazy'' \<and>
   \<not> complete (images gallery_page ! 2) \<and> img_listeners (images gallery_page ! 2) = [] \<and>
   classList (images (img_dispatch plain_env ErrorEv 2 (progressiveImageLoad gallery_page)) ! 2) =
     [''error''] \<and>
   console (img_dispatch plain_env ErrorEv 2 (progressiveImageLoad gallery_page)) =
     [Warn ''Failed to load image:'' ''https://fromrayacamera.example/c.png'']"
  using failed_image_is_marked_once [of 2 gallery_page plain_env]
  by (simp add: eval_defs)

text \<open>
  The claim as written speaks of every image whose fetch fails. An image without
  \<^verbatim>\<open>loading="lazy"\<close> has no \<^verbatim>\<open>error\<close> listener: it gets no class and no warning
  is written. An image that was complete when it was registered took the branch of line 66:
  it is marked "loaded", has no \<^verbatim>\<open>error\<close> listener either, and a later failure leaves
  it so.
\<close>

theorem failed_eager_image_is_not_marked:
  "loading (images gallery_page ! 1) = None \<and>
   classList (images (img_dispatch plain_env ErrorEv 1 (progressiveImageLoad gallery_page)) ! 1) = [] \<and>
   console (img_dispatch plain_env ErrorEv 1 (progressiveImageLoad gallery_page)) = [] \<and>
   loading (images gallery_page ! 3) = Some ''lazy'' \<and> complete (images gallery_page ! 3) \<and>
   classList (images (img_dispatch plain_env ErrorEv 3 (progressiveImageLoad gallery_page)) ! 3) =
     [''loaded''] \<and>
   console (img_dispatch plain_env ErrorEv 3 (progressiveImageLoad gallery_page)) = []"
  by (simp add: eval_defs)

text \<open>
  Claim C5, as amended. The start-up classification is "slow" exactly when the
  connection reports \<^verbatim>\<open>slow-2g\<close>, \<^verbatim>\<open>2g\<close> or \<^verbatim>\<open>3g\<close>; without a connection it is
  not slow. \<^verbatim>\<open>AOS.init\<close> is called at most once, every call has \<^verbatim>\<open>disable\<close> set
  exactly when the classification is slow, and with the library present and a slow
  connection the call is made.
\<close>

theorem slow_connection_includes_3g:
  "(isSlowConnection c \<longleftrightarrow>
      c = Connection ''slow-2g'' \<or> c = Connection ''2g'' \<or> c = Connection ''3g'') \<and>
   (\<exists>new. aos_inits (setup_aos E p) = aos_inits p @ new \<and> length new \<le> 1 \<and>
      (\<forall>cfg \<in> set new. disable cfg \<longleftrightarrow> isSlowConnection (connection p)) \<and>
      (hasAOS E \<and> isSlowConnection (connection p) \<longrightarrow> length new = 1))"
  by (cases c) (auto simp: isSlowConnection_def setup_aos_def)

theorem slow_connection_includes_3g_witness:
  "hasAOS plain_env \<and> isSlowConnection (connection (online_page ''2g'')) \<and>
   \<not> isSlowConnection (Connection ''4g'') \<and>
   map disable (aos_inits (setup_aos plain_env (online_page ''2g''))) = [True]"
  using slow_connection_includes_3g [of "Connection ''4g''" plain_env "online_page ''2g''"]
  by (simp add: eval_defs isSlowConnection_def setup_aos_def)

text \<open>
  The claim as written counts only 2G and slower as slow. Line 44 includes
  \<^verbatim>\<open>3g\<close>: the classification is slow and the animations are disabled there.
\<close>

theorem three_g_counts_as_slow:
  "isSlowConnection (Connection ''3g'') \<and>
   map disable (aos_inits (setup_aos plain_env (online_page ''3g''))) = [True]"
  by (simp add: eval_defs isSlowConnection_def setup_aos_def)

text \<open>
  Claim C6. With a connection object, \<^verbatim>\<open>adaptToNetworkCondition\<close> succeeds, and after
  any sequence of change events the body carries \<^verbatim>\<open>low-bandwidth\<close> exactly when the
  last reported effective type is \<^verbatim>\<open>slow-2g\<close> or \<^verbatim>\<open>2g\<close>, whatever was reported before.
  In particular it is set after a report of \<^verbatim>\<open>2g\<close> and cleared after a later report of
  \<^verbatim>\<open>4g\<close>.
\<close>

theorem latest_connection_type_wins:
  assumes "connection p = Connection t0"
  shows "\<exists>q. adaptToNetworkCondition p = Inr q \<and>
           (\<forall>ts t. low_bandwidth (connection_change t (fold connection_change ts q)) \<longleftrightarrow>
                     t = ''slow-2g'' \<or> t = ''2g'') \<and>
           (\<forall>ts ts'. low_bandwidth (fold connection_change (ts @ [''2g'']) q) \<and>
                     \<not> low_bandwidth (fold connection_change (ts @ [''2g''] @ ts' @ [''4g'']) q))"
proof -
  from adaptToNetworkCondition_online [OF assms]
  obtain q where q: "adaptToNetworkCondition p = Inr q" "connection q = Connection t0"
    "0 < change_listeners q" by blast
  have last: "low_bandwidth (connection_change t (fold connection_change ts q)) \<longleftrightarrow>
                t = ''slow-2g'' \<or> t = ''2g''" for ts t
  proof -
    from connection_changes_keep_listening [OF q(2,3), of ts]
    obtain t' where "connection (fold connection_change ts q) = Connection t'"
      "0 < change_listeners (fold connection_change ts q)" by blast
    then show ?thesis by (rule connection_change_facts(3))
  qed
  have "low_bandwidth (fold connection_change (ts @ [''2g'']) q)" for ts
    using last [of "''2g''" ts] by simp
  moreover have "\<not> low_bandwidth (fold connection_change (ts @ [''2g''] @ ts' @ [''4g'']) q)"
    for ts ts'
    using last [of "''4g''" "ts @ [''2g''] @ ts'"] by simp
  ultimately show ?thesis using q(1) last by blast
qed

theorem latest_connection_type_wins_witness:
  "connection (online_page ''4g'') = Connection ''4g'' \<and>
   (\<exists>q. adaptToNetworkCondition (online_page ''4g'') = Inr q \<and>
        \<not> low_bandwidth q \<and>
        low_bandwidth (fold connection_change [''3g'', ''2g''] q) \<and>
        \<not> low_bandwidth (fold connection_change [''3g'', ''2g'', ''4g''] q))"
  using latest_connection_type_wins [of "online_page ''4g''" "''4g''"]
  by (auto simp add: eval_defs adaptToNetworkCondition_def low_bandwidth_def Let_def
        connection_change_def on_change_def)

text \<open>
  Claim C7, as amended. An image with \<^verbatim>\<open>loading="lazy"\<close> that is complete when
  \<^verbatim>\<open>progressiveImageLoad\<close> runs is marked "loaded" by the registration itself; no
  listener is attached to it, so nothing waits for a \<^verbatim>\<open>load\<close> event.
\<close>

theorem complete_image_is_loaded_at_registration:
  assumes "i < length (images p)" and "loading (images p ! i) = Some ''lazy''"
    and "complete (images p ! i)"
  shows "''loaded'' \<in> set (classList (images (progressiveImageLoad p) ! i)) \<and>
         img_listeners (images (progressiveImageLoad p) ! i) = img_listeners (images p ! i)"
  using assms by (simp add: nth_images_progressiveImageLoad track_def)

theorem complete_image_is_loaded_at_registration_witness:
  "3 < length (images gallery_page) \<and> loading (images gallery_page ! 3) = Some ''lazy'' \<and>
   complete (images gallery_page ! 3) \<and>
   classList (images (progressiveImageLoad gallery_page) ! 3) = [''loaded''] \<and>
   img_listeners (images (progressiveImageLoad gallery_page) ! 3) = []"
  using complete_image_is_loaded_at_registration [of 3 gallery_page]
  by (simp add: eval_defs)

text \<open>
  The claim as written speaks of any image that is complete at registration time. Line 61
  registers the images with \<^verbatim>\<open>loading="lazy"\<close> only: a complete image without that
  attribute is not visited by line 65, gets no class and no listener, and a later
  \<^verbatim>\<open>load\<close> event does not mark it either.
\<close>

theorem complete_eager_image_is_not_loaded:
  "complete (images gallery_page ! 0) \<and> loading (images gallery_page ! 0) = None \<and>
   classList (images (progressiveImageLoad gallery_page) ! 0) = [] \<and>
   img_listeners (images (progressiveImageLoad gallery_page) ! 0) = [] \<and>
   classList (images (img_dispatch plain_env LoadEv 0 (progressiveImageLoad gallery_page)) ! 0) = []"
  by (simp add: eval_defs)

text \<open>
  Claim C8. After \<^verbatim>\<open>prefetchCriticalResources\<close> on a page whose anchors had no listener
  of the script, and after the pointer has entered any sequence \<open>js\<close> of anchors, entering
  anchor \<open>i\<close> appends one prefetch link for its \<^verbatim>\<open>href\<close> when the anchor matches
  \<^verbatim>\<open>a[href*=".html"]\<close> and was not entered before, and appends nothing otherwise. So
  the second and every later hover of an anchor issues nothing.
\<close>

theorem prefetch_fires_once_per_link:
  assumes "\<forall>a \<in> set (links p). a_listeners a = []"
  shows "head_children (mouseenter E i (fold (mouseenter E) js (prefetchCriticalResources p))) =
           head_children (fold (mouseenter E) js (prefetchCriticalResources p)) @
             (if i \<notin> set js \<and> i < length (links p) \<and>
                 attr_contains ''.html'' (href_attr (links p ! i))
              then [PrefetchLink (url_prop E (href_attr (links p ! i)))] else [])"
proof -
  have "armed p ([] @ js) (fold (mouseenter E) js (prefetchCriticalResources p))"
    using assms by (intro mouseenters_armed armed_prefetchCriticalResources)
  from mouseenter_armed(2) [OF this] show ?thesis by simp
qed

theorem prefetch_fires_once_per_link_witness:
  "map a_listeners (links nav_page) = [[], []] \<and>
   head_children (fold (mouseenter plain_env) [0] (prefetchCriticalResources nav_page)) =
     [PrefetchLink ''https://fromrayacamera.example/galeri/galeri.html''] \<and>
   head_children (mouseenter plain_env 0
      (fold (mouseenter plain_env) [0] (prefetchCriticalResources nav_page))) =
     [PrefetchLink ''https://fromrayacamera.example/galeri/galeri.html'']"
proof -
  have none: "\<forall>a \<in> set (links nav_page). a_listeners a = []"
    by (simp add: nav_page_def blank_page_def)
  from prefetch_fires_once_per_link [OF none, of plain_env 0 "[0]"]
    prefetch_fires_once_per_link [OF none, of plain_env 0 "[]"]
  show ?thesis
    by (simp add: eval_defs sublist_code)
qed

text \<open>
  The page without the property \<^verbatim>\<open>connection\<close> in \<^verbatim>\<open>navigator\<close>: the guard of
  line 102 fails, \<^verbatim>\<open>adaptToNetworkCondition\<close> returns normally and leaves the page as it
  is; and after the script and any sequence of events the classes of the body, hence the
  \<^verbatim>\<open>low-bandwidth\<close> flag, and the list of uncaught exceptions are what they were before
  the script ran.
\<close>

lemma missing_connection_property_is_harmless:
  assumes "connection p = NoConnection"
  shows "adaptToNetworkCondition p = Inr p \<and>
         low_bandwidth (run E evs (script E p)) = low_bandwidth p \<and>
         body_classes (run E evs (script E p)) = body_classes p \<and>
         uncaught (run E evs (script E p)) = uncaught p"
proof -
  have s: "untouched p (script E p)" using assms by (rule untouched_script_offline)
  with assms have "connection (script E p) = NoConnection" by (simp add: untouched_def)
  then have "untouched (script E p) (run E evs (script E p))" by (rule untouched_run_offline)
  with s have "untouched p (run E evs (script E p))" by (rule untouched_trans)
  with assms show ?thesis
    by (simp add: untouched_def low_bandwidth_def adaptToNetworkCondition_offline)
qed


end
